theory Spec2Isabelle
  imports Complex_Main "HOL-Library.Word"
begin

unbundle bit_operations_syntax

section \<open>Data model\<close>

text \<open>
  A \<open>Uint8Array\<close> is a list of 8-bit words. A JavaScript string is a \<open>string\<close>; the
  development reads a \<open>char\<close> as one code unit in the range 0..255.
\<close>

type_synonym byte = "8 word"
type_synonym bytes = "byte list"

text \<open>
  A JavaScript \<open>number\<close>: the three non-finite doubles, or a finite double, kept as the
  rational it denotes. The code only compares numbers, tests them for integrality and
  converts integral ones with \<open>BigInt\<close>; all of these are exact on the denoted value.
\<close>

datatype number = NaN | PosInfinity | NegInfinity | Finite rat

text \<open>
  Every \<open>throw new Error(...)\<close> of the library is one constructor, named after the error
  kind and carrying the field name the message starts with (the message's other numbers
  are left out):
  \<^item> \<open>EmptyInputError\<close>: "Hex string cannot be empty";
  \<^item> \<open>OddLengthError\<close>: "Hex string must have even length, got ...";
  \<^item> \<open>InvalidHexError\<close>: "Invalid hex string: ...";
  \<^item> \<open>NotPositiveIntError name\<close>: "name must be a positive integer";
  \<^item> \<open>TooShortError name\<close>: "name must be at least ... bytes, got ..."
    (with name "signature": the signature-too-short error);
  \<^item> \<open>WrongLengthError name\<close>: "name must be exactly ... bytes, got ..."
    (with name "initialKey": the wrong-key-length error);
  \<^item> \<open>NegativeValueError name\<close>: "name cannot be negative";
  \<^item> \<open>OverflowError name\<close>: "name does not fit in ... bytes";
  \<^item> \<open>NotNonNegIntegerError name\<close>: "name must be a non-negative integer";
  \<^item> \<open>EmptyNumericError name\<close>: "name cannot be empty";
  \<^item> \<open>EmptyHexError name\<close>: "name hex cannot be empty";
  \<^item> \<open>BigIntSyntaxError\<close>: the \<open>SyntaxError\<close> that \<open>BigInt(s)\<close> throws on a string;
  \<^item> \<open>BigIntRangeError\<close>: the \<open>RangeError\<close> that \<open>BigInt(n)\<close> throws on a number that
    is not an integer;
  \<^item> \<open>NonNumericError name\<close>: "name must be numeric (decimal or 0x hex)";
  \<^item> \<open>MustBeNonNegativeError name\<close>: "name must be non-negative";
  \<^item> \<open>NonIntegerError\<close>: "timelock must be an integer";
  \<^item> \<open>RangeExceededError SafeInteger\<close>: "timelock exceeds MAX_SAFE_INTEGER; ...";
  \<^item> \<open>RangeExceededError Uint64\<close>: "timelock exceeds uint64 maximum";
  \<^item> \<open>HkdfError\<close>: whatever \<open>hkdfSync\<close> itself throws.
\<close>

datatype range_bound = SafeInteger | Uint64

datatype error =
    EmptyInputError
  | OddLengthError
  | InvalidHexError
  | NotPositiveIntError string
  | TooShortError string
  | WrongLengthError string
  | NegativeValueError string
  | OverflowError string
  | NotNonNegIntegerError string
  | EmptyNumericError string
  | EmptyHexError string
  | BigIntSyntaxError
  | BigIntRangeError
  | NonNumericError string
  | MustBeNonNegativeError string
  | NonIntegerError
  | RangeExceededError range_bound
  | HkdfError

text \<open>Sequencing of computations that may throw.\<close>

definition bindE :: "error + 'a \<Rightarrow> ('a \<Rightarrow> error + 'b) \<Rightarrow> error + 'b" where
  "bindE m f = (case m of Inl e \<Rightarrow> Inl e | Inr x \<Rightarrow> f x)"

section \<open>String primitives of the language\<close>

definition code_unit :: "char \<Rightarrow> nat" where
  "code_unit c = of_char c"

text \<open>
  \<open>String.prototype.trim\<close> removes white space and line terminators from both ends.
  Below 256 these are TAB, LF, VT, FF, CR, SPACE and NBSP.
\<close>

definition is_js_whitespace :: "char \<Rightarrow> bool" where
  "is_js_whitespace c = (code_unit c \<in> {9, 10, 11, 12, 13, 32, 160})"

definition trim :: "string \<Rightarrow> string" where
  "trim s = rev (dropWhile is_js_whitespace (rev (dropWhile is_js_whitespace s)))"

definition startsWith :: "string \<Rightarrow> string \<Rightarrow> bool" where
  "startsWith s p = (take (length p) s = p)"

definition is_decimal_digit :: "char \<Rightarrow> bool" where
  "is_decimal_digit c = (48 \<le> code_unit c \<and> code_unit c \<le> 57)"

definition is_hex_digit :: "char \<Rightarrow> bool" where
  "is_hex_digit c =
     (is_decimal_digit c \<or> (97 \<le> code_unit c \<and> code_unit c \<le> 102)
        \<or> (65 \<le> code_unit c \<and> code_unit c \<le> 70))"

text \<open>The value of a digit in any radix up to 16 (\<open>0-9\<close>, \<open>a-f\<close>, \<open>A-F\<close>).\<close>

definition digit_value :: "char \<Rightarrow> nat" where
  "digit_value c =
     (if is_decimal_digit c then code_unit c - 48
      else if 97 \<le> code_unit c \<and> code_unit c \<le> 102 then code_unit c - 87
      else code_unit c - 55)"

text \<open>The digits \<open>hex.encode\<close> writes: \<open>0-9\<close> and \<open>a-f\<close>.\<close>

definition is_lower_hex_digit :: "char \<Rightarrow> bool" where
  "is_lower_hex_digit c = (is_decimal_digit c \<or> (97 \<le> code_unit c \<and> code_unit c \<le> 102))"

text \<open>Folding of letter case on the ASCII letters.\<close>

definition ascii_lower :: "char \<Rightarrow> char" where
  "ascii_lower c =
     (if 65 \<le> code_unit c \<and> code_unit c \<le> 90 then char_of (code_unit c + 32) else c)"

section \<open>Encoding layer\<close>

subsection \<open>Hex text\<close>

text \<open>
  \<open>strip0x\<close>: trim, then drop one leading \<open>0x\<close> or \<open>0X\<close>.
\<close>

definition strip0x :: "string \<Rightarrow> string" where
  "strip0x s =
     (let t = trim s in
      if startsWith t ''0x'' \<or> startsWith t ''0X'' then drop 2 t else t)"

text \<open>
  Modelled from the spec: \<open>hex.decode\<close> and \<open>hex.encode\<close> belong to the package
  \<open>@scure/base\<close>, which is not part of the repository. \<open>hex.decode\<close> accepts an even
  number of characters of \<open>[0-9a-fA-F]\<close> and returns one byte per pair, the first
  character being the high half; on anything else it throws (\<open>None\<close>).
  \<open>hex.encode\<close> writes two lower-case digits per byte.
\<close>

fun hex_decode :: "string \<Rightarrow> bytes option" where
  "hex_decode [] = Some []"
| "hex_decode [c] = None"
| "hex_decode (a # b # rest) =
     (if is_hex_digit a \<and> is_hex_digit b then
        (case hex_decode rest of
           None \<Rightarrow> None
         | Some bs \<Rightarrow> Some (word_of_nat (16 * digit_value a + digit_value b) # bs))
      else None)"

definition hex_digit_char :: "nat \<Rightarrow> char" where
  "hex_digit_char n = ''0123456789abcdef'' ! n"

fun hex_encode :: "bytes \<Rightarrow> string" where
  "hex_encode [] = []"
| "hex_encode (b # bs) =
     hex_digit_char (unat b div 16) # hex_digit_char (unat b mod 16) # hex_encode bs"

definition hexToBytesStrict :: "string \<Rightarrow> error + bytes" where
  "hexToBytesStrict input =
     (let clean = strip0x input in
      if length clean = 0 then Inl EmptyInputError
      else if length clean mod 2 \<noteq> 0 then Inl OddLengthError
      else (case hex_decode clean of
              Some bs \<Rightarrow> Inr bs
            | None \<Rightarrow> Inl InvalidHexError))"

text \<open>
  \<open>toBytes\<close> takes a string, read as hex text, or binary data (an \<open>ArrayBuffer\<close>, a view
  or a \<open>Buffer\<close>), whose bytes it returns as they are.
\<close>

datatype bytes_input = HexText string | Binary bytes

fun toBytes :: "bytes_input \<Rightarrow> error + bytes" where
  "toBytes (HexText s) = hexToBytesStrict s"
| "toBytes (Binary bs) = Inr bs"

definition bytesToHex0x :: "bytes \<Rightarrow> string" where
  "bytesToHex0x bs = ''0x'' @ hex_encode bs"

subsection \<open>Assertions\<close>

definition isInteger :: "number \<Rightarrow> bool" where
  "isInteger n = (case n of Finite q \<Rightarrow> of_int \<lfloor>q\<rfloor> = q | _ \<Rightarrow> False)"

definition isFinite :: "number \<Rightarrow> bool" where
  "isFinite n = (case n of Finite q \<Rightarrow> True | _ \<Rightarrow> False)"

text \<open>\<open>n <= 0\<close> and \<open>n < 0\<close> on numbers; a comparison with \<open>NaN\<close> is false.\<close>

definition num_le_zero :: "number \<Rightarrow> bool" where
  "num_le_zero n = (case n of Finite q \<Rightarrow> q \<le> 0 | NegInfinity \<Rightarrow> True | _ \<Rightarrow> False)"

definition num_lt_zero :: "number \<Rightarrow> bool" where
  "num_lt_zero n = (case n of Finite q \<Rightarrow> q < 0 | NegInfinity \<Rightarrow> True | _ \<Rightarrow> False)"

definition assertPositiveInt :: "number \<Rightarrow> string \<Rightarrow> error + unit" where
  "assertPositiveInt n name =
     (if \<not> isInteger n \<or> num_le_zero n then Inl (NotPositiveIntError name) else Inr ())"

text \<open>The length of an array as a number, and an integral number as a count.\<close>

definition length_number :: "bytes \<Rightarrow> number" where
  "length_number bs = Finite (of_nat (length bs))"

definition count_of :: "number \<Rightarrow> nat" where
  "count_of n = (case n of Finite q \<Rightarrow> nat \<lfloor>q\<rfloor> | _ \<Rightarrow> 0)"

definition num_less :: "number \<Rightarrow> number \<Rightarrow> bool" where
  "num_less a b =
     (case (a, b) of
        (Finite p, Finite q) \<Rightarrow> p < q
      | (Finite p, PosInfinity) \<Rightarrow> True
      | (NegInfinity, Finite q) \<Rightarrow> True
      | (NegInfinity, PosInfinity) \<Rightarrow> True
      | _ \<Rightarrow> False)"

definition assertMinLength :: "bytes \<Rightarrow> number \<Rightarrow> string \<Rightarrow> error + unit" where
  "assertMinLength bs min_len name =
     (if num_less (length_number bs) min_len then Inl (TooShortError name) else Inr ())"

definition assertExactLength :: "bytes \<Rightarrow> number \<Rightarrow> string \<Rightarrow> error + unit" where
  "assertExactLength bs len name =
     (if length_number bs \<noteq> len then Inl (WrongLengthError name) else Inr ())"

subsection \<open>Fixed-width big-endian encoding\<close>

text \<open>
  The loop of \<open>uintToFixedBE\<close>: \<open>uint_loop n v out\<close> runs the iterations
  \<open>i = n - 1, ..., 0\<close>, each storing \<open>v & 0xff\<close> at index \<open>i\<close> and shifting \<open>v\<close> right by 8.
  It returns what is left of \<open>v\<close> and the array.
\<close>

fun uint_loop :: "nat \<Rightarrow> int \<Rightarrow> bytes \<Rightarrow> int \<times> bytes" where
  "uint_loop 0 v out = (v, out)"
| "uint_loop (Suc i) v out = uint_loop i (drop_bit 8 v) (out[i := word_of_int (v AND 255)])"

definition uintToFixedBE :: "int \<Rightarrow> nat \<Rightarrow> string \<Rightarrow> error + bytes" where
  "uintToFixedBE v0 width name =
     (if v0 < 0 then Inl (NegativeValueError name)
      else (case uint_loop width v0 (replicate width 0) of
              (v, out) \<Rightarrow> if v \<noteq> 0 then Inl (OverflowError name) else Inr out))"

text \<open>Reading a byte sequence as a big-endian unsigned integer.\<close>

definition be_value :: "bytes \<Rightarrow> int" where
  "be_value bs = foldl (\<lambda>acc b. 256 * acc + uint b) 0 bs"


text \<open>
  The big-endian digits of \<open>v\<close> in \<open>n\<close> bytes, most significant first: the
  specification the loop is compared with.
\<close>

fun be_bytes :: "nat \<Rightarrow> int \<Rightarrow> bytes" where
  "be_bytes 0 v = []"
| "be_bytes (Suc n) v = be_bytes n (v div 256) @ [word_of_int v]"

subsection \<open>Numeric identifiers\<close>

text \<open>
  \<open>BigInt(s)\<close> on a string: white space is trimmed; the empty string is \<open>0n\<close>; a
  \<open>0x\<close>, \<open>0o\<close> or \<open>0b\<close> prefix (either case) selects the radix and takes no sign; otherwise
  the text is decimal digits with an optional sign. Anything else is a \<open>SyntaxError\<close>
  (\<open>None\<close>).
\<close>

definition digits_value :: "nat \<Rightarrow> string \<Rightarrow> int" where
  "digits_value radix ds = foldl (\<lambda>acc c. int radix * acc + int (digit_value c)) 0 ds"

definition is_digit_of :: "nat \<Rightarrow> char \<Rightarrow> bool" where
  "is_digit_of radix c = (is_hex_digit c \<and> digit_value c < radix)"

definition parse_digits :: "nat \<Rightarrow> string \<Rightarrow> int option" where
  "parse_digits radix ds =
     (if ds \<noteq> [] \<and> list_all (is_digit_of radix) ds then Some (digits_value radix ds)
      else None)"

definition BigInt_of_string :: "string \<Rightarrow> int option" where
  "BigInt_of_string s =
     (let t = trim s in
      if t = [] then Some 0
      else if startsWith t ''0x'' \<or> startsWith t ''0X'' then parse_digits 16 (drop 2 t)
      else if startsWith t ''0o'' \<or> startsWith t ''0O'' then parse_digits 8 (drop 2 t)
      else if startsWith t ''0b'' \<or> startsWith t ''0B'' then parse_digits 2 (drop 2 t)
      else if startsWith t ''-'' then map_option uminus (parse_digits 10 (drop 1 t))
      else if startsWith t ''+'' then parse_digits 10 (drop 1 t)
      else parse_digits 10 t)"

text \<open>\<open>BigInt(n)\<close> on a number: the integer itself, or a \<open>RangeError\<close> (\<open>None\<close>).\<close>

definition BigInt_of_number :: "number \<Rightarrow> int option" where
  "BigInt_of_number n =
     (case n of Finite q \<Rightarrow> if of_int \<lfloor>q\<rfloor> = q then Some \<lfloor>q\<rfloor> else None | _ \<Rightarrow> None)"

text \<open>The test \<open>/^\d+$/\<close>: one or more characters, each of \<open>0-9\<close>.\<close>

definition all_decimal_digits :: "string \<Rightarrow> bool" where
  "all_decimal_digits s = (s \<noteq> [] \<and> list_all is_decimal_digit s)"

datatype numeric_input = NumText string | Num number | Big int

definition checked_BigInt :: "string \<Rightarrow> string \<Rightarrow> error + int" where
  "checked_BigInt s name =
     (case BigInt_of_string s of
        None \<Rightarrow> Inl BigIntSyntaxError
      | Some v \<Rightarrow> if v < 0 then Inl (MustBeNonNegativeError name) else Inr v)"

definition parseNumericId :: "numeric_input \<Rightarrow> string \<Rightarrow> error + int" where
  "parseNumericId ident name =
     (case ident of
        Big v \<Rightarrow> Inr v
      | Num n \<Rightarrow>
          if \<not> isFinite n \<or> \<not> isInteger n \<or> num_lt_zero n
          then Inl (NotNonNegIntegerError name)
          else (case BigInt_of_number n of None \<Rightarrow> Inl BigIntRangeError | Some v \<Rightarrow> Inr v)
      | NumText txt \<Rightarrow>
          (let s = trim txt in
           if length s = 0 then Inl (EmptyNumericError name)
           else if startsWith s ''0x'' \<or> startsWith s ''0X'' then
             (let hexPart = drop 2 s in
              if length hexPart = 0 then Inl (EmptyHexError name)
              else checked_BigInt s name)
           else if \<not> all_decimal_digits s then Inl (NonNumericError name)
           else checked_BigInt s name))"

subsection \<open>Chain id and timelock\<close>

definition KEY_LENGTH :: number where "KEY_LENGTH = Finite 32"
definition CHAIN_ID_BYTES :: number where "CHAIN_ID_BYTES = Finite 32"
definition TIMELOCK_BYTES :: number where "TIMELOCK_BYTES = Finite 8"
definition MIN_SIGNATURE_BYTES :: number where "MIN_SIGNATURE_BYTES = Finite 32"
definition MAX_SAFE_INTEGER :: number where "MAX_SAFE_INTEGER = Finite 9007199254740991"

definition encodeChainId :: "numeric_input \<Rightarrow> number \<Rightarrow> error + bytes" where
  "encodeChainId chainId width =
     bindE (assertPositiveInt width ''chainIdWidth'') (\<lambda>_.
     bindE (parseNumericId chainId ''chainId'') (\<lambda>v.
     uintToFixedBE v (count_of width) ''chainId''))"

text \<open>The first half of \<open>encodeTimelock\<close>: the big integer \<open>v\<close> of the timelock.\<close>

definition timelock_bigint :: "numeric_input \<Rightarrow> error + int" where
  "timelock_bigint timelock =
     (case timelock of
        Big v \<Rightarrow> Inr v
      | Num n \<Rightarrow>
          if \<not> isFinite n \<or> \<not> isInteger n then Inl NonIntegerError
          else if num_lt_zero n then Inl (NegativeValueError ''timelock'')
          else if num_less MAX_SAFE_INTEGER n then Inl (RangeExceededError SafeInteger)
          else (case BigInt_of_number n of None \<Rightarrow> Inl BigIntRangeError | Some v \<Rightarrow> Inr v)
      | NumText txt \<Rightarrow> parseNumericId (NumText txt) ''timelock'')"

definition encodeTimelock :: "numeric_input \<Rightarrow> number \<Rightarrow> error + bytes" where
  "encodeTimelock timelock width =
     bindE (assertPositiveInt width ''timelockWidth'') (\<lambda>_.
     bindE (timelock_bigint timelock) (\<lambda>v.
     if width = Finite 8 \<and> v > push_bit 64 1 - 1 then Inl (RangeExceededError Uint64)
     else uintToFixedBE v (count_of width) ''timelock''))"

section \<open>Derivation layer\<close>

text \<open>The bytes of an ASCII label (\<open>Buffer.from(label, "utf8")\<close>).\<close>

definition utf8_bytes :: "string \<Rightarrow> bytes" where
  "utf8_bytes s = map (\<lambda>c. word_of_nat (code_unit c)) s"

definition INFO_INITIAL :: bytes where
  "INFO_INITIAL = utf8_bytes ''signature-key-initial''"

definition INFO_TIMELOCK :: bytes where
  "INFO_TIMELOCK = utf8_bytes ''signature-key-timelock''"

record DerivationOptions =
  outputLength :: "number option"
  infoInitialLabel :: "bytes option"
  infoTimelockLabel :: "bytes option"
  chainIdWidth :: "number option"
  timelockWidth :: "number option"

text \<open>The operator \<open>??\<close>: the default where the field is absent.\<close>

definition nullish :: "'a option \<Rightarrow> 'a \<Rightarrow> 'a" where
  "nullish x d = (case x of None \<Rightarrow> d | Some v \<Rightarrow> v)"

definition no_options :: DerivationOptions where
  "no_options =
     \<lparr>outputLength = None, infoInitialLabel = None, infoTimelockLabel = None,
      chainIdWidth = None, timelockWidth = None\<rparr>"

text \<open>
  \<open>hkdfSync("sha256", ikm, salt, info, keylen)\<close> belongs to the platform's cryptography
  library, not to the repository: it is a parameter of the derivation functions, taking
  the key material, the salt, the label and the length; \<open>None\<close> stands for a throw.
\<close>

type_synonym hkdf = "bytes \<Rightarrow> bytes \<Rightarrow> bytes \<Rightarrow> number \<Rightarrow> bytes option"

definition run_hkdf :: "hkdf \<Rightarrow> bytes \<Rightarrow> bytes \<Rightarrow> bytes \<Rightarrow> number \<Rightarrow> error + bytes" where
  "run_hkdf hkdfSync ikm salt info keylen =
     (case hkdfSync ikm salt info keylen of None \<Rightarrow> Inl HkdfError | Some out \<Rightarrow> Inr out)"

definition createInitialKeyFromSignature ::
  "hkdf \<Rightarrow> bytes_input \<Rightarrow> numeric_input \<Rightarrow> DerivationOptions \<Rightarrow> error + string" where
  "createInitialKeyFromSignature hkdfSync signature chainId opts =
     bindE (toBytes signature) (\<lambda>sigBytes.
     bindE (assertMinLength sigBytes MIN_SIGNATURE_BYTES ''signature'') (\<lambda>_.
     let keyLength = nullish (outputLength opts) KEY_LENGTH;
         infoInitial = nullish (infoInitialLabel opts) INFO_INITIAL;
         idWidth = nullish (chainIdWidth opts) CHAIN_ID_BYTES
     in
     bindE (assertPositiveInt keyLength ''outputLength'') (\<lambda>_.
     bindE (assertPositiveInt idWidth ''chainIdWidth'') (\<lambda>_.
     bindE (encodeChainId chainId idWidth) (\<lambda>chainIdBytes.
     bindE (run_hkdf hkdfSync sigBytes chainIdBytes infoInitial keyLength) (\<lambda>out.
     bindE (assertExactLength out keyLength ''HKDF output'') (\<lambda>_.
     Inr (bytesToHex0x out))))))))"

definition deriveKeyFromInitialKeyAndTimelock ::
  "hkdf \<Rightarrow> bytes_input \<Rightarrow> numeric_input \<Rightarrow> DerivationOptions \<Rightarrow> error + string" where
  "deriveKeyFromInitialKeyAndTimelock hkdfSync initialKey timelock opts =
     bindE (toBytes initialKey) (\<lambda>keyBytes.
     let keyLength = nullish (outputLength opts) KEY_LENGTH;
         infoTimelock = nullish (infoTimelockLabel opts) INFO_TIMELOCK;
         lockWidth = nullish (timelockWidth opts) TIMELOCK_BYTES
     in
     bindE (assertPositiveInt keyLength ''outputLength'') (\<lambda>_.
     bindE (assertPositiveInt lockWidth ''timelockWidth'') (\<lambda>_.
     bindE (assertExactLength keyBytes keyLength ''initialKey'') (\<lambda>_.
     bindE (encodeTimelock timelock lockWidth) (\<lambda>timelockBytes.
     bindE (run_hkdf hkdfSync keyBytes timelockBytes infoTimelock keyLength) (\<lambda>out.
     bindE (assertExactLength out keyLength ''HKDF output'') (\<lambda>_.
     Inr (bytesToHex0x out))))))))"

text \<open>
  What each operation hands to \<open>hkdfSync\<close>: the validation and encoding steps up to the
  call, with the four arguments of the call as their result.
\<close>

record hkdf_call =
  ikm :: bytes
  salt :: bytes
  info :: bytes
  keylen :: number




section \<open>The earlier module \<open>index.ts\<close>\<close>

text \<open>
  The file \<open>index.ts\<close> holds an earlier form of the two operations, without options and
  without validation. Its names carry the prefix \<open>index_\<close> where they clash with the
  library's.
\<close>

definition normalizeHex :: "string \<Rightarrow> string" where
  "normalizeHex h = (if startsWith h ''0x'' then drop 2 h else h)"

text \<open>
  \<open>Buffer.from(s, "hex")\<close> of the platform: one byte per pair of hex digits, stopping at
  the first pair that is not one; a last single character is dropped.
\<close>

fun Buffer_from_hex :: "string \<Rightarrow> bytes" where
  "Buffer_from_hex (a # b # rest) =
     (if is_hex_digit a \<and> is_hex_digit b
      then word_of_nat (16 * digit_value a + digit_value b) # Buffer_from_hex rest
      else [])"
| "Buffer_from_hex [c] = []"
| "Buffer_from_hex [] = []"

fun toBuffer :: "bytes_input \<Rightarrow> bytes" where
  "toBuffer (Binary b) = b"
| "toBuffer (HexText s) = Buffer_from_hex (normalizeHex s)"

definition INFO :: bytes where
  "INFO = utf8_bytes ''generic-signature-key-derivation''"

definition index_KEY_LENGTH :: number where
  "index_KEY_LENGTH = Finite 32"

text \<open>\<open>BigInt.prototype.toString(16)\<close>: lower-case digits, a minus sign when negative.\<close>

function nat_to_hex :: "nat \<Rightarrow> string" where
  "nat_to_hex n =
     (if n < 16 then [hex_digit_char n]
      else nat_to_hex (n div 16) @ [hex_digit_char (n mod 16)])"
  by pat_completeness auto
termination
  by (relation "measure id") auto

definition bigint_toString16 :: "int \<Rightarrow> string" where
  "bigint_toString16 v = (if v < 0 then ''-'' @ nat_to_hex (nat (- v)) else nat_to_hex (nat v))"

definition index_initial_call :: "bytes_input \<Rightarrow> bytes_input \<Rightarrow> hkdf_call" where
  "index_initial_call signature chainId =
     (let sigBuf = toBuffer signature;
          chainIdBuf = toBuffer chainId
      in \<lparr>ikm = sigBuf, salt = chainIdBuf, info = INFO, keylen = index_KEY_LENGTH\<rparr>)"

definition index_timeBig :: "numeric_input \<Rightarrow> error + int" where
  "index_timeBig timelock =
     (case timelock of
        Big v \<Rightarrow> Inr v
      | Num n \<Rightarrow> (case BigInt_of_number n of None \<Rightarrow> Inl BigIntRangeError | Some v \<Rightarrow> Inr v)
      | NumText txt \<Rightarrow>
          (case BigInt_of_string txt of None \<Rightarrow> Inl BigIntSyntaxError | Some v \<Rightarrow> Inr v))"

definition index_timelock_call :: "bytes_input \<Rightarrow> numeric_input \<Rightarrow> error + hkdf_call" where
  "index_timelock_call initialKey timelock =
     (let keyBuf = toBuffer initialKey in
      bindE (index_timeBig timelock) (\<lambda>timeBig.
      let timeHex = bigint_toString16 timeBig;
          timeBuf = Buffer_from_hex (if length timeHex mod 2 = 0 then timeHex else ''0'' @ timeHex)
      in Inr \<lparr>ikm = keyBuf, salt = timeBuf, info = INFO, keylen = index_KEY_LENGTH\<rparr>))"

text \<open>
  \<open>hkdfSync\<close> returns an \<open>ArrayBuffer\<close>. \<open>index.ts\<close> renders it with
  \<open>(keyBuf as any).toString('hex')\<close>; an \<open>ArrayBuffer\<close> has no \<open>toString\<close> of its own, so
  this is \<open>Object.prototype.toString\<close>, which ignores its argument and the contents.
\<close>

definition ArrayBuffer_toString :: "bytes \<Rightarrow> string" where
  "ArrayBuffer_toString buf = ''[object ArrayBuffer]''"

definition index_render :: "hkdf \<Rightarrow> hkdf_call \<Rightarrow> error + string" where
  "index_render hkdfSync c =
     bindE (run_hkdf hkdfSync (ikm c) (salt c) (info c) (keylen c)) (\<lambda>keyBuf.
     Inr (''0x'' @ ArrayBuffer_toString keyBuf))"

definition index_createInitialKeyFromSignature ::
  "hkdf \<Rightarrow> bytes_input \<Rightarrow> bytes_input \<Rightarrow> error + string" where
  "index_createInitialKeyFromSignature hkdfSync signature chainId =
     index_render hkdfSync (index_initial_call signature chainId)"

definition index_deriveKeyFromInitialKeyAndTimelock ::
  "hkdf \<Rightarrow> bytes_input \<Rightarrow> numeric_input \<Rightarrow> error + string" where
  "index_deriveKeyFromInitialKeyAndTimelock hkdfSync initialKey timelock =
     bindE (index_timelock_call initialKey timelock) (index_render hkdfSync)"

section \<open>Sequencing\<close>

lemma bindE_Inr [simp]: "bindE (Inr x) f = f x"
  by (simp add: bindE_def)

lemma bindE_Inl [simp]: "bindE (Inl e) f = Inl e"
  by (simp add: bindE_def)

lemma bindE_eq_Inr: "bindE m f = Inr y \<longleftrightarrow> (\<exists>x. m = Inr x \<and> f x = Inr y)"
  by (cases m) auto

lemma bindE_eq_Inl: "bindE m f = Inl e \<longleftrightarrow> m = Inl e \<or> (\<exists>x. m = Inr x \<and> f x = Inl e)"
  by (cases m) auto

section \<open>Fixed-width encoding: the loop computes the big-endian digits\<close>

lemma length_be_bytes: "length (be_bytes n v) = n"
  by (induction n arbitrary: v) auto

lemma byte_and_255: "(word_of_int (v AND 255) :: byte) = word_of_int v"
proof -
  have "v AND 255 = take_bit 8 v"
    by (simp add: take_bit_eq_mask mask_eq_exp_minus_1)
  then show ?thesis
    by (simp add: word_of_int_eq_iff)
qed

lemma uint_loop_eq:
  "n \<le> length out \<Longrightarrow> uint_loop n v out = (v div 256 ^ n, be_bytes n v @ drop n out)"
proof (induction n arbitrary: v out)
  case 0
  then show ?case by simp
next
  case (Suc n)
  have lt: "n < length out" using Suc.prems by simp
  have d: "drop n (out[n := w]) = w # drop (Suc n) out" for w
    using lt by (simp add: Cons_nth_drop_Suc[symmetric] upd_conv_take_nth_drop)
  have "uint_loop (Suc n) v out = uint_loop n (v div 256) (out[n := word_of_int v])"
    by (simp add: byte_and_255 drop_bit_eq_div)
  also have "\<dots> = (v div 256 div 256 ^ n,
      be_bytes n (v div 256) @ drop n (out[n := word_of_int v]))"
    using lt by (intro Suc.IH) simp
  also have "\<dots> = (v div 256 ^ Suc n, be_bytes (Suc n) v @ drop (Suc n) out)"
    by (simp add: d zdiv_zmult2_eq)
  finally show ?case .
qed

lemma be_value_snoc: "be_value (xs @ [b]) = 256 * be_value xs + uint b"
  by (simp add: be_value_def)

lemma be_value_be_bytes: "be_value (be_bytes n v) = v mod 256 ^ n"
proof (induction n arbitrary: v)
  case 0
  then show ?case by (simp add: be_value_def)
next
  case (Suc n)
  have u: "uint (word_of_int v :: byte) = v mod 256"
    by (simp add: uint_word_of_int take_bit_eq_mod)
  have "be_value (be_bytes (Suc n) v) = 256 * ((v div 256) mod 256 ^ n) + v mod 256"
    by (simp add: be_value_snoc Suc.IH u)
  also have "\<dots> = v mod 256 ^ Suc n"
    by (simp add: zmod_zmult2_eq)
  finally show ?case .
qed

lemma nth_be_bytes: "i < n \<Longrightarrow> be_bytes n v ! i = word_of_int (v div 256 ^ (n - 1 - i))"
proof (induction n arbitrary: v i)
  case 0
  then show ?case by simp
next
  case (Suc n)
  show ?case
  proof (cases "i < n")
    case True
    then have "be_bytes (Suc n) v ! i = be_bytes n (v div 256) ! i"
      by (simp add: nth_append length_be_bytes)
    also have "\<dots> = word_of_int (v div 256 div 256 ^ (n - 1 - i))"
      using True by (rule Suc.IH)
    also have "v div 256 div 256 ^ (n - 1 - i) = v div 256 ^ (Suc n - 1 - i)"
    proof -
      have "Suc n - 1 - i = Suc (n - 1 - i)" using True by simp
      then show ?thesis by (simp add: zdiv_zmult2_eq)
    qed
    finally show ?thesis .
  next
    case False
    then have "i = n" using Suc.prems by simp
    then show ?thesis by (simp add: nth_append length_be_bytes)
  qed
qed

lemma uintToFixedBE_eq:
  "uintToFixedBE v w name =
     (if v < 0 then Inl (NegativeValueError name)
      else if v div 256 ^ w \<noteq> 0 then Inl (OverflowError name)
      else Inr (be_bytes w v))"
  by (simp add: uintToFixedBE_def uint_loop_eq)

lemma overflow_iff: "0 \<le> v \<Longrightarrow> (v div 256 ^ w \<noteq> 0) = (2 ^ (8 * w) \<le> (v::int))"
proof -
  assume nn: "0 \<le> v"
  have p: "(256::int) ^ w = 2 ^ (8 * w)"
    by (simp add: power_mult)
  have "(v div 256 ^ w = 0) = (v < 256 ^ w)"
    using nn by (auto simp: zdiv_eq_0_iff)
  then show ?thesis unfolding p by linarith
qed

text \<open>
  C2. For a non-negative \<open>v\<close>, \<open>uintToFixedBE\<close> returns exactly \<open>w\<close> bytes, the big-endian
  digits of \<open>v\<close> padded with zeros on the left, whose value read back is \<open>v\<close>, whenever
  \<open>v < 2^(8w)\<close>; it fails with the overflow error exactly when \<open>v \<ge> 2^(8w)\<close>; and it
  fails with the negative-value error when \<open>v\<close> is negative.
\<close>

theorem uintToFixedBE_correct:
  "(v < 0 \<longrightarrow> uintToFixedBE v w name = Inl (NegativeValueError name)) \<and>
   (0 \<le> v \<longrightarrow> (uintToFixedBE v w name = Inl (OverflowError name)) = (2 ^ (8 * w) \<le> v)) \<and>
   (0 \<le> v \<and> v < 2 ^ (8 * w) \<longrightarrow>
      (\<exists>bs. uintToFixedBE v w name = Inr bs \<and> length bs = w \<and> be_value bs = v \<and>
            (\<forall>i<w. bs ! i = word_of_int (v div 256 ^ (w - 1 - i)))))"
proof -
  have fit: "v mod 256 ^ w = v" if "0 \<le> v" "v < 2 ^ (8 * w)"
    using that by (simp add: power_mult)
  show ?thesis
    by (auto simp: uintToFixedBE_eq overflow_iff fit length_be_bytes be_value_be_bytes
        nth_be_bytes)
qed

theorem uintToFixedBE_correct_witness:
  "uintToFixedBE (-1) 8 ''timelock'' = Inl (NegativeValueError ''timelock'') \<and>
   uintToFixedBE (2 ^ 64) 8 ''timelock'' = Inl (OverflowError ''timelock'') \<and>
   uintToFixedBE 1000 8 ''timelock'' = Inr [0, 0, 0, 0, 0, 0, 3, 232] \<and>
   be_value [0, 0, 0, 0, 0, 0, 3, 232] = 1000"
proof -
  have a: "uintToFixedBE (-1) 8 ''timelock'' = Inl (NegativeValueError ''timelock'')"
    using uintToFixedBE_correct [of "-1" 8 "''timelock''"] by simp
  have b: "uintToFixedBE (2 ^ 64) 8 ''timelock'' = Inl (OverflowError ''timelock'')"
    using uintToFixedBE_correct [of "2 ^ 64" 8 "''timelock''"] by simp
  have c: "uintToFixedBE 1000 8 ''timelock'' = Inr [0, 0, 0, 0, 0, 0, 3, 232]"
    by code_simp
  have d: "be_value [0, 0, 0, 0, 0, 0, 3, 232] = 1000"
    using uintToFixedBE_correct [of 1000 8 "''timelock''"] c by simp
  show ?thesis using a b c d by simp
qed


section \<open>Strict hex decoding\<close>

lemma hex_decode_None_iff:
  "hex_decode s = None \<longleftrightarrow> odd (length s) \<or> (\<exists>c\<in>set s. \<not> is_hex_digit c)"
proof (induction s rule: hex_decode.induct)
  case 1
  then show ?case by simp
next
  case (2 c)
  then show ?case by simp
next
  case (3 a b rest)
  show ?case
  proof (cases "is_hex_digit a \<and> is_hex_digit b")
    case True
    then show ?thesis using "3.IH" by (cases "hex_decode rest") auto
  next
    case False
    then show ?thesis by auto
  qed
qed

lemma hex_decode_length: "hex_decode s = Some bs \<Longrightarrow> 2 * length bs = length s"
proof (induction s arbitrary: bs rule: hex_decode.induct)
  case 1
  then show ?case by simp
next
  case (2 c)
  then show ?case by simp
next
  case (3 a b rest)
  from "3.prems" obtain bs' where
    h: "is_hex_digit a \<and> is_hex_digit b" "hex_decode rest = Some bs'" "length bs = Suc (length bs')"
    by (auto split: option.splits if_splits)
  have "2 * length bs' = length rest"
    using h(1,2) by (rule "3.IH")
  then show ?case using h(3) by simp
qed

lemma char_eq_code_unit: "code_unit a = code_unit b \<Longrightarrow> a = b"
  unfolding code_unit_def by (simp only: of_char_eq_iff)

lemma digit_value_less: "is_hex_digit c \<Longrightarrow> digit_value c < 16"
  by (auto simp: is_hex_digit_def is_decimal_digit_def digit_value_def)

lemma digit_value_fold:
  assumes "is_hex_digit a" "is_hex_digit b" "digit_value a = digit_value b"
  shows "ascii_lower a = ascii_lower b"
proof -
  define m where "m = code_unit a"
  define n where "n = code_unit b"
  have cases: "m = n \<or> (65 \<le> m \<and> m \<le> 70 \<and> n = m + 32) \<or> (65 \<le> n \<and> n \<le> 70 \<and> m = n + 32)"
    using assms unfolding m_def n_def is_hex_digit_def is_decimal_digit_def digit_value_def
    by (simp split: if_splits; arith)
  have up: "ascii_lower c = char_of (code_unit c + 32)" if "65 \<le> code_unit c" "code_unit c \<le> 70" for c
    using that by (simp add: ascii_lower_def)
  have low: "ascii_lower c = c" if "97 \<le> code_unit c" for c
    using that by (simp add: ascii_lower_def)
  have rt: "char_of (code_unit c) = c" for c
    by (simp add: code_unit_def)
  from cases show ?thesis
  proof (elim disjE conjE)
    assume "m = n"
    then have "a = b" unfolding m_def n_def by (rule char_eq_code_unit)
    then show ?thesis by simp
  next
    assume h: "65 \<le> m" "m \<le> 70" "n = m + 32"
    have "ascii_lower a = char_of n" using up [of a] h unfolding m_def by simp
    also have "\<dots> = b" unfolding n_def by (rule rt)
    also have "\<dots> = ascii_lower b" using low [of b] h unfolding n_def by simp
    finally show ?thesis .
  next
    assume h: "65 \<le> n" "n \<le> 70" "m = n + 32"
    have "ascii_lower b = char_of m" using up [of b] h unfolding n_def by simp
    also have "\<dots> = a" unfolding m_def by (rule rt)
    also have "\<dots> = ascii_lower a" using low [of a] h unfolding m_def by simp
    finally show ?thesis by simp
  qed
qed

lemma byte_pair_inj:
  assumes "h < 16" "l < 16" "h' < 16" "l' < 16"
    and "(word_of_nat (16 * h + l) :: byte) = word_of_nat (16 * h' + l')"
  shows "h = h' \<and> l = l'"
proof -
  have "unat (word_of_nat (16 * h + l) :: byte) = unat (word_of_nat (16 * h' + l') :: byte)"
    using assms(5) by (rule arg_cong)
  then have m: "(16 * h + l) mod 256 = (16 * h' + l') mod 256"
    by (simp only: unat_of_nat) simp
  have b1: "16 * h + l < 256" using assms(1,2) by linarith
  have b2: "16 * h' + l' < 256" using assms(3,4) by linarith
  have e: "16 * h + l = 16 * h' + l'"
    using m b1 b2 by (simp only: mod_less)
  have "(16 * h + l) div 16 = (16 * h' + l') div 16" using e by (rule arg_cong)
  then have hh: "h = h'" using assms(2,4) by simp
  then show ?thesis using e by simp
qed

lemma hex_decode_inj_fold:
  "hex_decode x = Some bs \<Longrightarrow> hex_decode y = Some bs \<Longrightarrow> map ascii_lower x = map ascii_lower y"
proof (induction x arbitrary: y bs rule: hex_decode.induct)
  case 1
  then show ?case
    by (cases y rule: hex_decode.cases) (auto split: option.splits if_splits)
next
  case (2 c)
  then show ?case by simp
next
  case (3 a b rest)
  from "3.prems"(1) obtain bs' where
    x: "is_hex_digit a" "is_hex_digit b" "hex_decode rest = Some bs'"
       "bs = word_of_nat (16 * digit_value a + digit_value b) # bs'"
    by (auto split: option.splits if_splits)
  from "3.prems"(2) x(4) obtain a' b' rest' where
    y: "y = a' # b' # rest'" "is_hex_digit a'" "is_hex_digit b'" "hex_decode rest' = Some bs'"
       "(word_of_nat (16 * digit_value a + digit_value b) :: byte) =
          word_of_nat (16 * digit_value a' + digit_value b')"
    by (cases y rule: hex_decode.cases) (auto split: option.splits if_splits)
  have dv: "digit_value a = digit_value a' \<and> digit_value b = digit_value b'"
    by (rule byte_pair_inj [OF _ _ _ _ y(5)]) (simp_all add: digit_value_less x y)
  have "map ascii_lower rest = map ascii_lower rest'"
  proof (rule "3.IH")
    show "is_hex_digit a \<and> is_hex_digit b" using x by simp
    show "hex_decode rest = Some bs'" by (rule x(3))
    show "hex_decode rest' = Some bs'" by (rule y(4))
  qed
  moreover have "ascii_lower a = ascii_lower a'"
    using x(1) y(2) dv by (intro digit_value_fold) simp_all
  moreover have "ascii_lower b = ascii_lower b'"
    using x(2) y(3) dv by (intro digit_value_fold) simp_all
  ultimately show ?case
    using y(1) by simp
qed

text \<open>
  C5. With \<open>strip0x s\<close> the text left after trimming and removing the optional prefix:
  \<open>hexToBytesStrict\<close> fails with the empty-input error when that text is empty, with
  the odd-length error when its length is odd, with the invalid-hex error when a
  character outside \<open>[0-9a-fA-F]\<close> is present, and otherwise returns a byte sequence
  of exactly half its length. The checks are made in this order, so each error is that of
  the first check that fails.
\<close>

theorem hexToBytesStrict_cases:
  "(strip0x s = [] \<longrightarrow> hexToBytesStrict s = Inl EmptyInputError) \<and>
   (strip0x s \<noteq> [] \<and> odd (length (strip0x s)) \<longrightarrow> hexToBytesStrict s = Inl OddLengthError) \<and>
   (strip0x s \<noteq> [] \<and> even (length (strip0x s)) \<and> (\<exists>c\<in>set (strip0x s). \<not> is_hex_digit c)
      \<longrightarrow> hexToBytesStrict s = Inl InvalidHexError) \<and>
   (strip0x s \<noteq> [] \<and> even (length (strip0x s)) \<and> (\<forall>c\<in>set (strip0x s). is_hex_digit c)
      \<longrightarrow> (\<exists>bs. hexToBytesStrict s = Inr bs \<and> 2 * length bs = length (strip0x s)))"
proof -
  have bad: "hexToBytesStrict s = Inl InvalidHexError"
    if "strip0x s \<noteq> []" "even (length (strip0x s))" "\<exists>c\<in>set (strip0x s). \<not> is_hex_digit c"
  proof -
    have "hex_decode (strip0x s) = None"
      using that(3) by (simp add: hex_decode_None_iff)
    then show ?thesis
      using that(1,2) by (simp add: hexToBytesStrict_def Let_def)
  qed
  have good: "\<exists>bs. hexToBytesStrict s = Inr bs \<and> 2 * length bs = length (strip0x s)"
    if "strip0x s \<noteq> []" "even (length (strip0x s))" "\<forall>c\<in>set (strip0x s). is_hex_digit c"
  proof -
    have "hex_decode (strip0x s) \<noteq> None"
      using that(2,3) by (simp add: hex_decode_None_iff)
    then obtain bs where bs: "hex_decode (strip0x s) = Some bs" by auto
    then have "hexToBytesStrict s = Inr bs"
      using that(1,2) by (simp add: hexToBytesStrict_def Let_def)
    then show ?thesis using hex_decode_length [OF bs] by simp
  qed
  have empty: "strip0x s = [] \<Longrightarrow> hexToBytesStrict s = Inl EmptyInputError"
    by (simp add: hexToBytesStrict_def)
  have odd: "hexToBytesStrict s = Inl OddLengthError"
    if "strip0x s \<noteq> []" "odd (length (strip0x s))"
  proof -
    have "length (strip0x s) mod 2 \<noteq> 0" using that(2) by presburger
    then show ?thesis using that(1) by (simp add: hexToBytesStrict_def Let_def)
  qed
  show ?thesis using bad good empty odd by blast
qed

theorem hexToBytesStrict_cases_witness:
  "hexToBytesStrict ''0x'' = Inl EmptyInputError \<and>
   hexToBytesStrict ''0xaaa'' = Inl OddLengthError \<and>
   hexToBytesStrict ''0xGGG'' = Inl OddLengthError \<and>
   hexToBytesStrict ''0xGGGG'' = Inl InvalidHexError \<and>
   (\<exists>bs. hexToBytesStrict ''0xaa'' = Inr bs \<and> 2 * length bs = length (strip0x ''0xaa''))"
proof -
  have s1: "strip0x ''0x'' = []" by code_simp
  have s2: "strip0x ''0xaaa'' = ''aaa''" by code_simp
  have s3: "strip0x ''0xGGGG'' = ''GGGG''" by code_simp
  have s4: "strip0x ''0xaa'' = ''aa''" by code_simp
  have s5: "strip0x ''0xGGG'' = ''GGG''" by code_simp
  have g: "\<not> is_hex_digit CHR ''G''" by code_simp
  have a: "is_hex_digit CHR ''a''" by code_simp
  have "hexToBytesStrict ''0x'' = Inl EmptyInputError"
    using hexToBytesStrict_cases [of "''0x''"] s1 by simp
  moreover have "hexToBytesStrict ''0xaaa'' = Inl OddLengthError"
    using hexToBytesStrict_cases [of "''0xaaa''"] s2 by simp
  moreover have "hexToBytesStrict ''0xGGG'' = Inl OddLengthError"
    using hexToBytesStrict_cases [of "''0xGGG''"] s5 by simp
  moreover have "hexToBytesStrict ''0xGGGG'' = Inl InvalidHexError"
    using hexToBytesStrict_cases [of "''0xGGGG''"] s3 g by simp
  moreover have "\<exists>bs. hexToBytesStrict ''0xaa'' = Inr bs \<and> 2 * length bs = length (strip0x ''0xaa'')"
    using hexToBytesStrict_cases [of "''0xaa''"] s4 a by simp
  ultimately show ?thesis by simp
qed

text \<open>
  C9, as stated: two inputs on which \<open>hexToBytesStrict\<close> succeeds with equal bytes are
  equal. This fails: the prefix is optional and both letter cases are accepted.
\<close>

theorem hexToBytesStrict_not_injective:
  "hexToBytesStrict ''0xAB'' = Inr [171] \<and> hexToBytesStrict ''ab'' = Inr [171] \<and>
   ''0xAB'' \<noteq> ''ab''"
proof -
  have a: "hexToBytesStrict ''0xAB'' = Inr [171]" by code_simp
  have b: "hexToBytesStrict ''ab'' = Inr [171]" by code_simp
  show ?thesis using a b by simp
qed

text \<open>
  C9, amended. Two inputs on which \<open>hexToBytesStrict\<close> succeeds with equal bytes are
  equal after trimming, removing the optional prefix and folding letter case.
\<close>

theorem hexToBytesStrict_inj_up_to_case:
  assumes "hexToBytesStrict a = Inr bs" and "hexToBytesStrict b = Inr bs"
  shows "map ascii_lower (strip0x a) = map ascii_lower (strip0x b)"
proof -
  have d: "hex_decode (strip0x x) = Some bs" if "hexToBytesStrict x = Inr bs" for x
    using that by (auto simp: hexToBytesStrict_def Let_def split: if_splits option.splits)
  show ?thesis
    using d [OF assms(1)] d [OF assms(2)] by (rule hex_decode_inj_fold)
qed

theorem hexToBytesStrict_inj_up_to_case_witness:
  "map ascii_lower (strip0x ''0xAB'') = map ascii_lower (strip0x '' ab'')"
proof -
  have a: "hexToBytesStrict ''0xAB'' = Inr [171]" by code_simp
  have b: "hexToBytesStrict '' ab'' = Inr [171]" by code_simp
  show ?thesis using hexToBytesStrict_inj_up_to_case [OF a b] .
qed

section \<open>White space around hex text\<close>

lemma dropWhile_all: "list_all P xs \<Longrightarrow> dropWhile P (xs @ ys) = dropWhile P ys"
  by (induction xs) auto

lemma trim_pad:
  assumes l: "list_all is_js_whitespace l" and r: "list_all is_js_whitespace r"
  shows "trim (l @ s @ r) = trim s"
proof -
  have front: "dropWhile is_js_whitespace (l @ s @ r) = dropWhile is_js_whitespace (s @ r)"
    using l by (rule dropWhile_all)
  have rr: "list_all is_js_whitespace (rev r)"
    using r by (simp add: list_all_iff)
  show ?thesis
  proof (cases "list_all is_js_whitespace s")
    case True
    have "dropWhile is_js_whitespace (s @ r) = []"
      using True r by (simp add: list_all_iff)
    moreover have "dropWhile is_js_whitespace s = []"
      using True by (simp add: list_all_iff)
    ultimately show ?thesis
      by (simp only: trim_def front)
  next
    case False
    then obtain x where x: "x \<in> set s" "\<not> is_js_whitespace x"
      by (auto simp: list_all_iff)
    then have "dropWhile is_js_whitespace (s @ r) = dropWhile is_js_whitespace s @ r"
      by (rule dropWhile_append1)
    then have "rev (dropWhile is_js_whitespace (l @ s @ r)) = rev r @ rev (dropWhile is_js_whitespace s)"
      by (simp add: front)
    then show ?thesis
      using dropWhile_all [OF rr] by (simp add: trim_def)
  qed
qed

lemma hexToBytesStrict_pad:
  assumes "list_all is_js_whitespace l" "list_all is_js_whitespace r"
  shows "hexToBytesStrict (l @ s @ r) = hexToBytesStrict s"
  using trim_pad [OF assms, of s] by (simp add: hexToBytesStrict_def strip0x_def)

text \<open>
  C10. Hex text is trimmed before the prefix is removed: for hex text \<open>s\<close> that decodes
  to \<open>bs\<close> and any white space \<open>l\<close> and \<open>r\<close>, the padded text \<open>l @ s @ r\<close> decodes to
  \<open>bs\<close> too, also through \<open>toBytes\<close>.
\<close>

theorem hex_padding_ignored:
  assumes "list_all is_js_whitespace l" and "list_all is_js_whitespace r"
    and "hexToBytesStrict s = Inr bs"
  shows "hexToBytesStrict (l @ s @ r) = Inr bs \<and> toBytes (HexText (l @ s @ r)) = Inr bs"
  using hexToBytesStrict_pad [OF assms(1,2), of s] assms(3) by simp

theorem hex_padding_ignored_witness:
  "hexToBytesStrict '' 0xAa0f  '' = Inr [170, 15] \<and> toBytes (HexText '' 0xAa0f  '') = Inr [170, 15]"
proof -
  have ws1: "list_all is_js_whitespace '' ''" by code_simp
  have ws2: "list_all is_js_whitespace ''  ''" by code_simp
  have d: "hexToBytesStrict ''0xAa0f'' = Inr [170, 15]" by code_simp
  show ?thesis using hex_padding_ignored [OF ws1 ws2 d] by simp
qed

section \<open>The timelock ceiling\<close>

lemma assertPositiveInt_cases:
  "assertPositiveInt n name = Inr () \<or> assertPositiveInt n name = Inl (NotPositiveIntError name)"
  by (simp add: assertPositiveInt_def)

lemma uintToFixedBE_not_range: "uintToFixedBE v w name \<noteq> Inl (RangeExceededError b)"
  by (simp add: uintToFixedBE_eq)

lemma checked_BigInt_not_range: "checked_BigInt s name \<noteq> Inl (RangeExceededError b)"
  by (simp add: checked_BigInt_def split: option.splits)

lemma parseNumericId_not_range: "parseNumericId i name \<noteq> Inl (RangeExceededError b)"
  by (cases i) (simp_all add: parseNumericId_def Let_def checked_BigInt_not_range split: option.splits)

lemma timelock_bigint_not_uint64: "timelock_bigint t \<noteq> Inl (RangeExceededError Uint64)"
  by (cases t) (simp_all add: timelock_bigint_def parseNumericId_not_range split: option.splits)

lemma max_u64: "push_bit 64 (1::int) - 1 = 2 ^ 64 - 1"
  by (simp add: push_bit_eq_mult)

lemma positive_8: "assertPositiveInt (Finite 8) name = Inr ()"
  by (simp add: assertPositiveInt_def isInteger_def num_le_zero_def)

lemma encodeTimelock_ceiling_iff:
  "(encodeTimelock t w = Inl (RangeExceededError Uint64)) =
     (w = Finite 8 \<and> (\<exists>v. timelock_bigint t = Inr v \<and> 2 ^ 64 - 1 < v))"
proof (cases "assertPositiveInt w ''timelockWidth'' = Inr ()")
  case False
  then have a: "assertPositiveInt w ''timelockWidth'' = Inl (NotPositiveIntError ''timelockWidth'')"
    using assertPositiveInt_cases by blast
  have "w \<noteq> Finite 8" using False positive_8 by auto
  then show ?thesis by (simp add: encodeTimelock_def a)
next
  case True
  show ?thesis
  proof (cases "timelock_bigint t")
    case (Inl e)
    then have "e \<noteq> RangeExceededError Uint64" using timelock_bigint_not_uint64 [of t] by auto
    then show ?thesis using Inl True by (simp add: encodeTimelock_def)
  next
    case (Inr v)
    then show ?thesis
      using True by (simp add: encodeTimelock_def max_u64 uintToFixedBE_not_range)
  qed
qed

lemma encodeTimelock_other_width:
  assumes "assertPositiveInt w ''timelockWidth'' = Inr ()" "w \<noteq> Finite 8"
    and "timelock_bigint t = Inr v" "0 \<le> v" "v < 2 ^ (8 * count_of w)"
  shows "encodeTimelock t w = Inr (be_bytes (count_of w) v)"
proof -
  have "v div 256 ^ count_of w = 0"
    using overflow_iff [OF assms(4), of "count_of w"] assms(5) by simp
  then show ?thesis
    using assms by (simp add: encodeTimelock_def uintToFixedBE_eq)
qed

lemma unsafe_number_rejected:
  assumes "num_less MAX_SAFE_INTEGER n"
  shows "isl (encodeTimelock (Num n) w)"
    and "isInteger n \<Longrightarrow> assertPositiveInt w ''timelockWidth'' = Inr () \<Longrightarrow>
         encodeTimelock (Num n) w = Inl (RangeExceededError SafeInteger)"
proof -
  obtain q where q: "n = Finite q \<and> 9007199254740991 < q \<or> n = PosInfinity"
    using assms by (cases n) (auto simp: num_less_def MAX_SAFE_INTEGER_def)
  have nn: "\<not> num_lt_zero n"
    using q by (auto simp: num_lt_zero_def)
  have tb: "isl (timelock_bigint (Num n))"
    using assms nn by (simp add: timelock_bigint_def)
  show "isl (encodeTimelock (Num n) w)"
    using tb assertPositiveInt_cases [of w "''timelockWidth''"]
    by (cases "timelock_bigint (Num n)") (auto simp: encodeTimelock_def)
  show "encodeTimelock (Num n) w = Inl (RangeExceededError SafeInteger)"
    if "isInteger n" "assertPositiveInt w ''timelockWidth'' = Inr ()"
  proof -
    have "isFinite n" using that(1) by (cases n) (auto simp: isInteger_def isFinite_def)
    then have "timelock_bigint (Num n) = Inl (RangeExceededError SafeInteger)"
      using that(1) nn assms by (simp add: timelock_bigint_def)
    then show ?thesis using that(2) by (simp add: encodeTimelock_def)
  qed
qed


text \<open>
  C4. \<open>encodeTimelock\<close> fails with the uint64 range error exactly when the width is 8
  and the timelock's integer exceeds \<open>2^64 - 1\<close>; for every other valid width a
  non-negative integer that fits the width is encoded, however large; and a number above
  \<open>MAX_SAFE_INTEGER\<close> is rejected whatever the width (with the safe-integer range error
  when the width is valid).
\<close>

theorem timelock_ceiling:
  "((encodeTimelock t w = Inl (RangeExceededError Uint64)) =
      (w = Finite 8 \<and> (\<exists>v. timelock_bigint t = Inr v \<and> 2 ^ 64 - 1 < v))) \<and>
   (assertPositiveInt w ''timelockWidth'' = Inr () \<and> w \<noteq> Finite 8 \<and>
      timelock_bigint t = Inr v \<and> 0 \<le> v \<and> v < 2 ^ (8 * count_of w)
      \<longrightarrow> encodeTimelock t w = Inr (be_bytes (count_of w) v)) \<and>
   (num_less MAX_SAFE_INTEGER n \<longrightarrow> isl (encodeTimelock (Num n) w)) \<and>
   (num_less MAX_SAFE_INTEGER n \<and> isInteger n \<and> assertPositiveInt w ''timelockWidth'' = Inr ()
      \<longrightarrow> encodeTimelock (Num n) w = Inl (RangeExceededError SafeInteger))"
  using encodeTimelock_ceiling_iff [of t w] encodeTimelock_other_width [of w t v]
    unsafe_number_rejected [of n w]
  by blast

theorem timelock_ceiling_witness:
  "encodeTimelock (Big (2 ^ 64)) (Finite 8) = Inl (RangeExceededError Uint64) \<and>
   encodeTimelock (Big (2 ^ 64 - 1)) (Finite 8) = Inr [255, 255, 255, 255, 255, 255, 255, 255] \<and>
   encodeTimelock (Big (2 ^ 64)) (Finite 9) = Inr [1, 0, 0, 0, 0, 0, 0, 0, 0] \<and>
   encodeTimelock (Big (2 ^ 64)) (Finite 4) = Inl (OverflowError ''timelock'') \<and>
   encodeTimelock (Num (Finite 9007199254740992)) (Finite 16) = Inl (RangeExceededError SafeInteger) \<and>
   isl (encodeTimelock (Num PosInfinity) (Finite 16))"
proof -
  have w9: "assertPositiveInt (Finite 9) ''timelockWidth'' = Inr ()"
    by (simp add: assertPositiveInt_def isInteger_def num_le_zero_def)
  have w16: "assertPositiveInt (Finite 16) ''timelockWidth'' = Inr ()"
    by (simp add: assertPositiveInt_def isInteger_def num_le_zero_def)
  have c9: "count_of (Finite 9) = 9" by (simp add: count_of_def)
  have big: "timelock_bigint (Big k) = Inr k" for k by (simp add: timelock_bigint_def)
  have a: "encodeTimelock (Big (2 ^ 64)) (Finite 8) = Inl (RangeExceededError Uint64)"
    using timelock_ceiling [of "Big (2 ^ 64)" "Finite 8" 0 NaN] by (simp add: big)
  have b: "encodeTimelock (Big (2 ^ 64 - 1)) (Finite 8) = Inr [255, 255, 255, 255, 255, 255, 255, 255]"
    by code_simp
  have "encodeTimelock (Big (2 ^ 64)) (Finite 9) = Inr (be_bytes (count_of (Finite 9)) (2 ^ 64))"
    using timelock_ceiling [of "Big (2 ^ 64)" "Finite 9" "2 ^ 64" NaN] w9 by (simp add: big c9)
  moreover have "be_bytes (count_of (Finite 9)) (2 ^ 64) = [1, 0, 0, 0, 0, 0, 0, 0, 0]"
    by code_simp
  ultimately have c: "encodeTimelock (Big (2 ^ 64)) (Finite 9) = Inr [1, 0, 0, 0, 0, 0, 0, 0, 0]"
    by simp
  have d: "encodeTimelock (Big (2 ^ 64)) (Finite 4) = Inl (OverflowError ''timelock'')"
    by code_simp
  have u: "num_less MAX_SAFE_INTEGER (Finite 9007199254740992)"
    by (simp add: num_less_def MAX_SAFE_INTEGER_def)
  have i: "isInteger (Finite 9007199254740992)"
    by (simp add: isInteger_def)
  have e: "encodeTimelock (Num (Finite 9007199254740992)) (Finite 16) = Inl (RangeExceededError SafeInteger)"
    using timelock_ceiling [of "Big 0" "Finite 16" 0 "Finite 9007199254740992"] u i w16 by simp
  have inf: "num_less MAX_SAFE_INTEGER PosInfinity"
    by (simp add: num_less_def MAX_SAFE_INTEGER_def)
  have f: "isl (encodeTimelock (Num PosInfinity) (Finite 16))"
    using timelock_ceiling [of "Big 0" "Finite 16" 0 PosInfinity] inf by simp
  show ?thesis using a b c d e f by simp
qed

section \<open>Length checks of the two operations\<close>

lemma assertMinLength_eq:
  "assertMinLength bs MIN_SIGNATURE_BYTES name =
     (if length bs < 32 then Inl (TooShortError name) else Inr ())"
  by (simp add: assertMinLength_def MIN_SIGNATURE_BYTES_def num_less_def length_number_def)

lemma assertPositiveInt_not_short: "assertPositiveInt n name \<noteq> Inl (TooShortError x)"
  by (simp add: assertPositiveInt_def)

lemma assertExactLength_not_short: "assertExactLength bs n name \<noteq> Inl (TooShortError x)"
  by (simp add: assertExactLength_def)

lemma checked_BigInt_not_short: "checked_BigInt s name \<noteq> Inl (TooShortError x)"
  by (simp add: checked_BigInt_def split: option.splits)

lemma parseNumericId_not_short: "parseNumericId i name \<noteq> Inl (TooShortError x)"
  by (cases i) (simp_all add: parseNumericId_def Let_def checked_BigInt_not_short split: option.splits)

lemma uintToFixedBE_not_short: "uintToFixedBE v w name \<noteq> Inl (TooShortError x)"
  by (simp add: uintToFixedBE_eq)

lemma encodeChainId_not_short: "encodeChainId c w \<noteq> Inl (TooShortError x)"
  by (simp add: encodeChainId_def bindE_eq_Inl assertPositiveInt_not_short
      parseNumericId_not_short uintToFixedBE_not_short)

lemma run_hkdf_not_short: "run_hkdf h i s l n \<noteq> Inl (TooShortError x)"
  by (simp add: run_hkdf_def split: option.splits)

text \<open>
  C7. Whenever the signature coerces to bytes, hex text or binary alike,
  \<open>createInitialKeyFromSignature\<close> fails with the too-short error for fewer than 32
  bytes, whatever the other arguments; with 32 bytes or more it does not fail with that
  error.
\<close>

theorem signature_min_length:
  assumes "toBytes signature = Inr sigBytes"
  shows "(length sigBytes < 32 \<longrightarrow>
            createInitialKeyFromSignature hkdfSync signature chainId opts =
              Inl (TooShortError ''signature'')) \<and>
         (32 \<le> length sigBytes \<longrightarrow>
            createInitialKeyFromSignature hkdfSync signature chainId opts \<noteq>
              Inl (TooShortError ''signature''))"
proof (intro conjI impI)
  assume "length sigBytes < 32"
  then show "createInitialKeyFromSignature hkdfSync signature chainId opts =
      Inl (TooShortError ''signature'')"
    using assms by (simp add: createInitialKeyFromSignature_def assertMinLength_eq)
next
  assume "32 \<le> length sigBytes"
  then show "createInitialKeyFromSignature hkdfSync signature chainId opts \<noteq>
      Inl (TooShortError ''signature'')"
    using assms
    by (simp add: createInitialKeyFromSignature_def assertMinLength_eq Let_def bindE_eq_Inl
        assertPositiveInt_not_short assertExactLength_not_short encodeChainId_not_short
        run_hkdf_not_short)
qed

theorem signature_min_length_witness:
  "createInitialKeyFromSignature (\<lambda>i s l n. Some (replicate (count_of n) 0)) (HexText ''0xaa'')
      (NumText ''1'') no_options = Inl (TooShortError ''signature'') \<and>
   createInitialKeyFromSignature (\<lambda>i s l n. Some (replicate (count_of n) 0))
      (Binary (replicate 32 170)) (NumText ''1'') no_options \<noteq> Inl (TooShortError ''signature'')"
proof -
  have a: "toBytes (HexText ''0xaa'') = Inr [170]" by code_simp
  have b: "toBytes (Binary (replicate 32 170)) = Inr (replicate 32 170)" by simp
  show ?thesis
    using signature_min_length [OF a, of "\<lambda>i s l n. Some (replicate (count_of n) 0)" "NumText ''1''" no_options]
      signature_min_length [OF b, of "\<lambda>i s l n. Some (replicate (count_of n) 0)" "NumText ''1''" no_options]
    by simp
qed

lemma assertExactLength_eq:
  "assertExactLength bs len name =
     (if length_number bs = len then Inr () else Inl (WrongLengthError name))"
  by (simp add: assertExactLength_def)

text \<open>
  C6. Whenever the initial key coerces to bytes whose number differs from the output
  length, \<open>deriveKeyFromInitialKeyAndTimelock\<close> fails: with the wrong-length error for
  \<open>initialKey\<close> when the two size options are positive integers (in particular by
  default, where the length is 32), and in no case is a key of another length accepted.
\<close>

theorem wrong_key_length:
  assumes "toBytes initialKey = Inr keyBytes"
    and "length_number keyBytes \<noteq> nullish (outputLength opts) KEY_LENGTH"
  shows "isl (deriveKeyFromInitialKeyAndTimelock hkdfSync initialKey timelock opts) \<and>
         (assertPositiveInt (nullish (outputLength opts) KEY_LENGTH) ''outputLength'' = Inr () \<and>
          assertPositiveInt (nullish (timelockWidth opts) TIMELOCK_BYTES) ''timelockWidth'' = Inr ()
          \<longrightarrow> deriveKeyFromInitialKeyAndTimelock hkdfSync initialKey timelock opts =
                Inl (WrongLengthError ''initialKey'')) \<and>
         (outputLength opts = None \<and> timelockWidth opts = None
          \<longrightarrow> deriveKeyFromInitialKeyAndTimelock hkdfSync initialKey timelock opts =
                Inl (WrongLengthError ''initialKey''))"
proof -
  let ?L = "nullish (outputLength opts) KEY_LENGTH"
  let ?W = "nullish (timelockWidth opts) TIMELOCK_BYTES"
  have valid: "deriveKeyFromInitialKeyAndTimelock hkdfSync initialKey timelock opts =
      Inl (WrongLengthError ''initialKey'')"
    if "assertPositiveInt ?L ''outputLength'' = Inr ()" "assertPositiveInt ?W ''timelockWidth'' = Inr ()"
    using assms that
    by (simp add: deriveKeyFromInitialKeyAndTimelock_def Let_def assertExactLength_eq)
  have rejected: "isl (deriveKeyFromInitialKeyAndTimelock hkdfSync initialKey timelock opts)"
    using assms assertPositiveInt_cases [of ?L "''outputLength''"]
      assertPositiveInt_cases [of ?W "''timelockWidth''"]
    by (auto simp: deriveKeyFromInitialKeyAndTimelock_def Let_def assertExactLength_eq)
  have dflt: "deriveKeyFromInitialKeyAndTimelock hkdfSync initialKey timelock opts =
        Inl (WrongLengthError ''initialKey'')"
    if "outputLength opts = None" "timelockWidth opts = None"
  proof -
    have L: "?L = Finite 32" and W: "?W = Finite 8"
      using that by (simp_all add: nullish_def KEY_LENGTH_def TIMELOCK_BYTES_def)
    have "assertPositiveInt ?L ''outputLength'' = Inr ()"
      unfolding L by (simp add: assertPositiveInt_def isInteger_def num_le_zero_def)
    moreover have "assertPositiveInt ?W ''timelockWidth'' = Inr ()"
      unfolding W by (rule positive_8)
    ultimately show ?thesis using valid by simp
  qed
  show ?thesis using valid rejected dflt by blast
qed

theorem wrong_key_length_witness:
  "deriveKeyFromInitialKeyAndTimelock (\<lambda>i s l n. Some (replicate (count_of n) 0))
      (HexText ''0xaa'') (Num (Finite 1000)) no_options = Inl (WrongLengthError ''initialKey'') \<and>
   deriveKeyFromInitialKeyAndTimelock (\<lambda>i s l n. Some (replicate (count_of n) 0))
      (Binary (replicate 33 170)) (Num (Finite 1000)) no_options = Inl (WrongLengthError ''initialKey'')"
proof -
  have a: "toBytes (HexText ''0xaa'') = Inr [170]" by code_simp
  have b: "toBytes (Binary (replicate 33 170)) = Inr (replicate 33 170)" by simp
  have o: "outputLength no_options = None" "timelockWidth no_options = None"
    by (simp_all add: no_options_def)
  have la: "length_number [170] \<noteq> nullish (outputLength no_options) KEY_LENGTH"
    by (simp add: length_number_def nullish_def no_options_def KEY_LENGTH_def)
  have lb: "length_number (replicate 33 170) \<noteq> nullish (outputLength no_options) KEY_LENGTH"
    by (simp add: length_number_def nullish_def no_options_def KEY_LENGTH_def)
  show ?thesis
    using wrong_key_length [OF a la, of "\<lambda>i s l n. Some (replicate (count_of n) 0)" "Num (Finite 1000)"]
      wrong_key_length [OF b lb, of "\<lambda>i s l n. Some (replicate (count_of n) 0)" "Num (Finite 1000)"] o
    by simp
qed


section \<open>Format of the result\<close>

lemma length_hex_encode: "length (hex_encode bs) = 2 * length bs"
  by (induction bs) auto

lemma hex_digit_char_table:
  "list_all (\<lambda>n. is_lower_hex_digit (hex_digit_char n) \<and> is_hex_digit (hex_digit_char n) \<and>
        digit_value (hex_digit_char n) = n) [0..<16]"
  by code_simp

lemma hex_digit_char_props:
  assumes "n < 16"
  shows "is_lower_hex_digit (hex_digit_char n) \<and> is_hex_digit (hex_digit_char n) \<and>
         digit_value (hex_digit_char n) = n"
proof -
  have "n \<in> set [0..<16]" using assms by simp
  then show ?thesis
    using hex_digit_char_table unfolding list_all_iff by blast
qed

lemma high_nibble_less: "unat (b :: byte) div 16 < 16"
proof -
  have "unat b < 256" using unsigned_less [of b, where 'a = nat] by simp
  then show ?thesis by simp
qed

lemma byte_nibbles: "(word_of_nat (16 * (unat b div 16) + unat b mod 16) :: byte) = b"
  by simp

lemma hex_encode_lower: "list_all is_lower_hex_digit (hex_encode bs)"
  by (induction bs) (simp_all add: hex_digit_char_props high_nibble_less)

lemma hex_decode_encode: "hex_decode (hex_encode bs) = Some bs"
proof (induction bs)
  case Nil
  then show ?case by simp
next
  case (Cons b bs)
  have hi: "unat b div 16 < 16" by (rule high_nibble_less)
  have lo: "unat b mod 16 < 16" by simp
  show ?case
    using hex_digit_char_props [OF hi] hex_digit_char_props [OF lo] Cons.IH
    by (simp add: byte_nibbles del: of_nat_add of_nat_mult)
qed

lemma finish_format:
  assumes "bindE (run_hkdf hkdfSync i sl lb len) (\<lambda>out.
           bindE (assertExactLength out len nm) (\<lambda>_. Inr (bytesToHex0x out))) = Inr s"
  shows "\<exists>out. s = ''0x'' @ hex_encode out \<and> length_number out = len"
  using assms
  by (auto simp: bindE_eq_Inr assertExactLength_eq bytesToHex0x_def split: if_splits)

lemma createInitialKey_format:
  assumes "createInitialKeyFromSignature hkdfSync signature chainId opts = Inr s"
  shows "\<exists>out. s = ''0x'' @ hex_encode out \<and>
               length_number out = nullish (outputLength opts) KEY_LENGTH"
proof -
  from assms obtain i sl lb where
    "bindE (run_hkdf hkdfSync i sl lb (nullish (outputLength opts) KEY_LENGTH)) (\<lambda>out.
       bindE (assertExactLength out (nullish (outputLength opts) KEY_LENGTH) ''HKDF output'')
         (\<lambda>_. Inr (bytesToHex0x out))) = Inr s"
    unfolding createInitialKeyFromSignature_def Let_def bindE_eq_Inr by blast
  then show ?thesis by (rule finish_format)
qed

lemma deriveKey_format:
  assumes "deriveKeyFromInitialKeyAndTimelock hkdfSync initialKey timelock opts = Inr s"
  shows "\<exists>out. s = ''0x'' @ hex_encode out \<and>
               length_number out = nullish (outputLength opts) KEY_LENGTH"
proof -
  from assms obtain i sl lb where
    "bindE (run_hkdf hkdfSync i sl lb (nullish (outputLength opts) KEY_LENGTH)) (\<lambda>out.
       bindE (assertExactLength out (nullish (outputLength opts) KEY_LENGTH) ''HKDF output'')
         (\<lambda>_. Inr (bytesToHex0x out))) = Inr s"
    unfolding deriveKeyFromInitialKeyAndTimelock_def Let_def bindE_eq_Inr by blast
  then show ?thesis by (rule finish_format)
qed

lemma key_text_format:
  assumes "s = ''0x'' @ hex_encode out" "length_number out = len"
  shows "take 2 s = ''0x'' \<and> list_all is_lower_hex_digit (drop 2 s) \<and>
         length s = 2 * count_of len + 2 \<and>
         (\<exists>bs. hex_decode (drop 2 s) = Some bs \<and> length_number bs = len) \<and>
         (len = Finite 32 \<longrightarrow> length s = 66)"
proof -
  have c: "count_of len = length out"
    using assms(2) by (auto simp: count_of_def length_number_def)
  have "len = Finite 32 \<Longrightarrow> length out = 32"
    using assms(2) by (auto simp: length_number_def)
  then show ?thesis
    using assms c by (auto simp: hex_encode_lower hex_decode_encode length_hex_encode)
qed

text \<open>
  C8. Every result of either operation starts with \<open>0x\<close>, continues with lower-case
  hex digits only, has \<open>2 * outputLength + 2\<close> characters (66 for the length 32) and
  is the hex text of exactly \<open>outputLength\<close> bytes.
\<close>

theorem output_format:
  assumes "createInitialKeyFromSignature hkdfSync signature chainId opts = Inr s \<or>
           deriveKeyFromInitialKeyAndTimelock hkdfSync initialKey timelock opts = Inr s"
  shows "take 2 s = ''0x'' \<and> list_all is_lower_hex_digit (drop 2 s) \<and>
         length s = 2 * count_of (nullish (outputLength opts) KEY_LENGTH) + 2 \<and>
         (\<exists>bs. hex_decode (drop 2 s) = Some bs \<and>
               length_number bs = nullish (outputLength opts) KEY_LENGTH) \<and>
         (nullish (outputLength opts) KEY_LENGTH = Finite 32 \<longrightarrow> length s = 66)"
proof -
  obtain out where "s = ''0x'' @ hex_encode out"
      "length_number out = nullish (outputLength opts) KEY_LENGTH"
    using assms createInitialKey_format deriveKey_format by blast
  then show ?thesis by (rule key_text_format)
qed

theorem output_format_witness:
  "createInitialKeyFromSignature (\<lambda>i s l n. Some (take (count_of n) (s @ i)))
      (Binary (replicate 32 170)) (NumText ''1'') no_options =
     Inr ''0x0000000000000000000000000000000000000000000000000000000000000001'' \<and>
   take 2 ''0x0000000000000000000000000000000000000000000000000000000000000001'' = ''0x'' \<and>
   list_all is_lower_hex_digit
     (drop 2 ''0x0000000000000000000000000000000000000000000000000000000000000001'') \<and>
   length ''0x0000000000000000000000000000000000000000000000000000000000000001'' = 66"
proof -
  have e: "createInitialKeyFromSignature (\<lambda>i s l n. Some (take (count_of n) (s @ i)))
      (Binary (replicate 32 170)) (NumText ''1'') no_options =
     Inr ''0x0000000000000000000000000000000000000000000000000000000000000001''"
    by code_simp
  have k: "nullish (outputLength no_options) KEY_LENGTH = Finite 32"
    by (simp add: nullish_def no_options_def KEY_LENGTH_def)
  show ?thesis
    using output_format [OF disjI1 [OF e]] e k by simp
qed

section \<open>Decimal and hex notation of one integer\<close>

lemma hex_digit_not_ws: "is_hex_digit c \<Longrightarrow> \<not> is_js_whitespace c"
  by (auto simp: is_hex_digit_def is_decimal_digit_def is_js_whitespace_def)

lemma decimal_is_hex: "is_decimal_digit c \<Longrightarrow> is_hex_digit c"
  by (simp add: is_hex_digit_def)

lemma trim_id:
  assumes "s \<noteq> []" "\<not> is_js_whitespace (hd s)" "\<not> is_js_whitespace (last s)"
  shows "trim s = s"
proof -
  have a: "dropWhile is_js_whitespace s = s"
    using assms(1,2) by (cases s) auto
  have "rev s \<noteq> []" "\<not> is_js_whitespace (hd (rev s))"
    using assms(1,3) by (simp_all add: hd_rev)
  then have "dropWhile is_js_whitespace (rev s) = rev s"
    by (cases "rev s") auto
  then show ?thesis by (simp add: trim_def a)
qed

lemma trim_digits:
  assumes "s \<noteq> []" "list_all is_hex_digit s"
  shows "trim s = s"
proof (rule trim_id [OF assms(1)])
  show "\<not> is_js_whitespace (hd s)"
    using assms by (intro hex_digit_not_ws) (auto simp: list_all_iff)
  show "\<not> is_js_whitespace (last s)"
    using assms by (intro hex_digit_not_ws) (auto simp: list_all_iff)
qed

lemma digits_value_nonneg: "0 \<le> digits_value radix ds"
proof -
  have "0 \<le> acc \<Longrightarrow> 0 \<le> foldl (\<lambda>acc c. int radix * acc + int (digit_value c)) acc ds" for acc
    by (induction ds arbitrary: acc) auto
  then show ?thesis by (simp add: digits_value_def)
qed

lemma decimal_digit_of_10: "is_decimal_digit c \<Longrightarrow> is_digit_of 10 c"
  by (auto simp: is_digit_of_def is_hex_digit_def is_decimal_digit_def digit_value_def)

lemma hex_digit_of_16: "is_hex_digit c \<Longrightarrow> is_digit_of 16 c"
  by (simp add: is_digit_of_def digit_value_less)

lemma decimal_no_prefix:
  assumes "list_all is_decimal_digit s" "\<not> is_decimal_digit c"
  shows "\<not> startsWith s [CHR ''0'', c]"
proof
  assume "startsWith s [CHR ''0'', c]"
  then have "c \<in> set s"
    by (cases s rule: hex_decode.cases) (auto simp: startsWith_def)
  then show False using assms by (auto simp: list_all_iff)
qed

lemma decimal_no_sign:
  assumes "s \<noteq> []" "list_all is_decimal_digit s" "\<not> is_decimal_digit c"
  shows "\<not> startsWith s [c]"
  using assms by (cases s) (auto simp: startsWith_def)

lemma BigInt_decimal:
  assumes "ds \<noteq> []" "list_all is_decimal_digit ds"
  shows "trim ds = ds" and "\<not> startsWith ds ''0x''" and "\<not> startsWith ds ''0X''"
    and "BigInt_of_string ds = Some (digits_value 10 ds)"
proof -
  have hx: "list_all is_hex_digit ds"
    using assms(2) by (auto simp: list_all_iff decimal_is_hex)
  show t: "trim ds = ds" using assms(1) hx by (rule trim_digits)
  have nd: "\<not> is_decimal_digit CHR ''x''" "\<not> is_decimal_digit CHR ''X''"
    "\<not> is_decimal_digit CHR ''o''" "\<not> is_decimal_digit CHR ''O''"
    "\<not> is_decimal_digit CHR ''b''" "\<not> is_decimal_digit CHR ''B''"
    "\<not> is_decimal_digit CHR ''-''" "\<not> is_decimal_digit CHR ''+''"
    by (simp_all add: is_decimal_digit_def code_unit_def)
  note np = nd(1-6) [THEN decimal_no_prefix [OF assms(2)]]
  note ns = nd(7,8) [THEN decimal_no_sign [OF assms]]
  show "\<not> startsWith ds ''0x''" and "\<not> startsWith ds ''0X''"
    using np by simp_all
  have pd: "parse_digits 10 ds = Some (digits_value 10 ds)"
    using assms by (auto simp: parse_digits_def list_all_iff decimal_digit_of_10)
  show "BigInt_of_string ds = Some (digits_value 10 ds)"
    using assms(1) np ns by (simp add: BigInt_of_string_def t pd)
qed

lemma parse_decimal:
  assumes "ds \<noteq> []" "list_all is_decimal_digit ds"
  shows "parseNumericId (NumText ds) name = Inr (digits_value 10 ds)"
proof -
  note b = BigInt_decimal [OF assms]
  have "checked_BigInt ds name = Inr (digits_value 10 ds)"
    using digits_value_nonneg [of 10 ds] by (simp add: checked_BigInt_def b(4))
  then show ?thesis
    using assms b(2,3) by (simp add: parseNumericId_def b(1) all_decimal_digits_def)
qed

lemma BigInt_hex:
  assumes "hs \<noteq> []" "list_all is_hex_digit hs" "p = ''0x'' \<or> p = ''0X''"
  shows "trim (p @ hs) = p @ hs" and "BigInt_of_string (p @ hs) = Some (digits_value 16 hs)"
proof -
  have z: "is_hex_digit CHR ''0''"
    by (simp add: is_hex_digit_def is_decimal_digit_def code_unit_def)
  have "\<not> is_js_whitespace (hd (p @ hs))"
    using assms(3) hex_digit_not_ws [OF z] by auto
  moreover have "\<not> is_js_whitespace (last (p @ hs))"
    using assms(1,2) by (intro hex_digit_not_ws) (auto simp: list_all_iff)
  ultimately show t: "trim (p @ hs) = p @ hs"
    using assms(3) by (intro trim_id) auto
  have sw: "startsWith (p @ hs) ''0x'' \<or> startsWith (p @ hs) ''0X''"
    using assms(3) by (auto simp: startsWith_def)
  have dr: "drop 2 (p @ hs) = hs"
    using assms(3) by auto
  have pd: "parse_digits 16 hs = Some (digits_value 16 hs)"
    using assms(1,2) by (auto simp: parse_digits_def list_all_iff hex_digit_of_16)
  show "BigInt_of_string (p @ hs) = Some (digits_value 16 hs)"
    using sw assms(3) by (auto simp: BigInt_of_string_def t dr pd)
qed

lemma parse_hex:
  assumes "hs \<noteq> []" "list_all is_hex_digit hs" "p = ''0x'' \<or> p = ''0X''"
  shows "parseNumericId (NumText (p @ hs)) name = Inr (digits_value 16 hs)"
proof -
  note b = BigInt_hex [OF assms]
  have sw: "startsWith (p @ hs) ''0x'' \<or> startsWith (p @ hs) ''0X''"
    using assms(3) by (auto simp: startsWith_def)
  have dr: "drop 2 (p @ hs) = hs"
    using assms(3) by auto
  have "checked_BigInt (p @ hs) name = Inr (digits_value 16 hs)"
    using digits_value_nonneg [of 16 hs] by (simp add: checked_BigInt_def b(2))
  then show ?thesis
    using sw assms(1,3) by (auto simp: parseNumericId_def b(1) dr)
qed

text \<open>
  C1. For a decimal text \<open>ds\<close> and a hex text \<open>0x hs\<close> of the same integer, both operations
  return the same result for the two texts, whatever the other arguments: \<open>parseNumericId\<close>
  yields the same integer before the fixed-width encoding.
\<close>

theorem numeric_format_equivalence:
  assumes "ds \<noteq> []" and "list_all is_decimal_digit ds"
    and "hs \<noteq> []" and "list_all is_hex_digit hs"
    and "p = ''0x'' \<or> p = ''0X''"
    and "digits_value 10 ds = digits_value 16 hs"
  shows "createInitialKeyFromSignature hkdfSync signature (NumText ds) opts =
           createInitialKeyFromSignature hkdfSync signature (NumText (p @ hs)) opts \<and>
         deriveKeyFromInitialKeyAndTimelock hkdfSync initialKey (NumText ds) opts =
           deriveKeyFromInitialKeyAndTimelock hkdfSync initialKey (NumText (p @ hs)) opts"
proof -
  have same: "parseNumericId (NumText ds) name = parseNumericId (NumText (p @ hs)) name" for name
    using parse_decimal [OF assms(1,2)] parse_hex [OF assms(3,4,5)] assms(6) by simp
  have "encodeChainId (NumText ds) w = encodeChainId (NumText (p @ hs)) w" for w
    by (simp add: encodeChainId_def same)
  moreover have "encodeTimelock (NumText ds) w = encodeTimelock (NumText (p @ hs)) w" for w
    by (simp add: encodeTimelock_def timelock_bigint_def same)
  ultimately show ?thesis
    by (simp add: createInitialKeyFromSignature_def deriveKeyFromInitialKeyAndTimelock_def)
qed

theorem numeric_format_equivalence_witness:
  "createInitialKeyFromSignature (\<lambda>i s l n. Some (take (count_of n) (s @ i)))
      (Binary (replicate 32 170)) (NumText ''255'') no_options =
   createInitialKeyFromSignature (\<lambda>i s l n. Some (take (count_of n) (s @ i)))
      (Binary (replicate 32 170)) (NumText ''0xff'') no_options \<and>
   deriveKeyFromInitialKeyAndTimelock (\<lambda>i s l n. Some (take (count_of n) (s @ i)))
      (Binary (replicate 32 170)) (NumText ''255'') no_options =
   deriveKeyFromInitialKeyAndTimelock (\<lambda>i s l n. Some (take (count_of n) (s @ i)))
      (Binary (replicate 32 170)) (NumText ''0xff'') no_options \<and>
   createInitialKeyFromSignature (\<lambda>i s l n. Some (take (count_of n) (s @ i)))
      (Binary (replicate 32 170)) (NumText ''255'') no_options =
     Inr ''0x00000000000000000000000000000000000000000000000000000000000000ff''"
proof -
  have d: "''255'' \<noteq> []" "list_all is_decimal_digit ''255''" by code_simp+
  have h: "''ff'' \<noteq> []" "list_all is_hex_digit ''ff''" by code_simp+
  have v: "digits_value 10 ''255'' = digits_value 16 ''ff''" by code_simp
  have p: "''0x'' = ''0x'' \<or> ''0x'' = ''0X''" by simp
  have e: "createInitialKeyFromSignature (\<lambda>i s l n. Some (take (count_of n) (s @ i)))
      (Binary (replicate 32 170)) (NumText ''255'') no_options =
     Inr ''0x00000000000000000000000000000000000000000000000000000000000000ff''"
    by code_simp
  show ?thesis
    using numeric_format_equivalence [OF d h p v,
        of "\<lambda>i s l n. Some (take (count_of n) (s @ i))" "Binary (replicate 32 170)" no_options
          "Binary (replicate 32 170)"] e
    by simp
qed

section \<open>Labels\<close>








text \<open>
  The earlier \<open>index.ts\<close> has no labels per stage: both of its operations hand the one
  label \<open>INFO\<close> to \<open>hkdfSync\<close>.
\<close>

theorem index_single_label:
  "info (index_initial_call signature chainId) = INFO \<and>
   (index_timelock_call initialKey timelock = Inr c \<longrightarrow>
      info c = info (index_initial_call signature chainId))"
  by (auto simp: index_initial_call_def index_timelock_call_def Let_def bindE_eq_Inr)

theorem index_single_label_witness:
  "info (index_initial_call (Binary (replicate 32 170)) (HexText ''1'')) = INFO \<and>
   map_sum id info (index_timelock_call (Binary (replicate 32 170)) (Num (Finite 1000))) =
     Inr INFO"
proof -
  obtain c where c: "index_timelock_call (Binary (replicate 32 170)) (Num (Finite 1000)) = Inr c"
    by (simp add: index_timelock_call_def index_timeBig_def BigInt_of_number_def Let_def)
  show ?thesis
    using index_single_label [of "Binary (replicate 32 170)" "HexText ''1''"
        "Binary (replicate 32 170)" "Num (Finite 1000)" c] c
    by simp
qed

text \<open>
  \<open>index.ts\<close> reads the chain id as hex text: \<open>255\<close> gives the salt \<open>0x25\<close> and \<open>0xff\<close>
  the salt \<open>0xff\<close>. Whatever \<open>hkdfSync\<close> returns, the text returned is the same.
\<close>

theorem index_chainId_read_as_hex:
  "salt (index_initial_call signature (HexText ''255'')) = [37] \<and>
   salt (index_initial_call signature (HexText ''0xff'')) = [255] \<and>
   (case index_createInitialKeyFromSignature hkdfSync signature chainId of
      Inl e \<Rightarrow> e = HkdfError
    | Inr s \<Rightarrow> s = ''0x[object ArrayBuffer]'')"
proof -
  have a: "Buffer_from_hex (normalizeHex ''255'') = [37]" by code_simp
  have b: "Buffer_from_hex (normalizeHex ''0xff'') = [255]" by code_simp
  show ?thesis
    using a b
    by (simp add: index_initial_call_def index_createInitialKeyFromSignature_def index_render_def
        run_hkdf_def ArrayBuffer_toString_def split: option.splits)
qed

text \<open>
  For the timelock \<open>index.ts\<close> calls \<open>BigInt\<close> on the text, so a decimal and a hex text of
  one integer give the same call of \<open>hkdfSync\<close>.
\<close>

theorem index_timelock_notation:
  assumes "ds \<noteq> []" and "list_all is_decimal_digit ds"
    and "hs \<noteq> []" and "list_all is_hex_digit hs"
    and "p = ''0x'' \<or> p = ''0X''"
    and "digits_value 10 ds = digits_value 16 hs"
  shows "index_deriveKeyFromInitialKeyAndTimelock hkdfSync initialKey (NumText ds) =
         index_deriveKeyFromInitialKeyAndTimelock hkdfSync initialKey (NumText (p @ hs))"
  using BigInt_decimal(4) [OF assms(1,2)] BigInt_hex(2) [OF assms(3,4,5)] assms(6)
  by (simp add: index_deriveKeyFromInitialKeyAndTimelock_def index_timelock_call_def
      index_timeBig_def)

end
